theory Spec2Isabelle
  imports Main "HOL-Library.Word" "HOL-Library.Sublist" "HOL-Library.List_Lexorder"
begin

section \<open>JavaScript strings\<close>

text \<open>
  A JavaScript string is a sequence of UTF-16 code units; \<open>length\<close> counts code units and
  the regular expressions of the two edge functions (none has the \<open>u\<close> flag) work on code
  units. \<open>js\<close> turns an ASCII literal into such a string.
\<close>

type_synonym jschar = "16 word"
type_synonym jsstring = "jschar list"

definition js :: "string \<Rightarrow> jsstring" where
  "js s = map of_char s"

text \<open>
  The class \<open>\s\<close> of a regular expression and the characters removed by \<open>trim()\<close> are the
  same set: WhiteSpace and LineTerminator of ECMAScript.
\<close>

definition js_space :: "jschar \<Rightarrow> bool" where
  "js_space c \<longleftrightarrow>
     c \<in> {0x9, 0xA, 0xB, 0xC, 0xD, 0x20, 0xA0, 0x1680, 0x2028, 0x2029, 0x202F, 0x205F,
          0x3000, 0xFEFF}
     \<or> (0x2000 \<le> c \<and> c \<le> 0x200A)"

definition trim :: "jsstring \<Rightarrow> jsstring" where
  "trim s = rev (dropWhile js_space (rev (dropWhile js_space s)))"

text \<open>\<open>[.!?]\<close>, \<open>\d\<close> and \<open>[A-Z]\<close>.\<close>

definition sentence_end :: "jschar \<Rightarrow> bool" where
  "sentence_end c \<longleftrightarrow> c \<in> {0x2E, 0x21, 0x3F}"

definition js_digit :: "jschar \<Rightarrow> bool" where
  "js_digit c \<longleftrightarrow> 0x30 \<le> c \<and> c \<le> 0x39"

definition js_upper :: "jschar \<Rightarrow> bool" where
  "js_upper c \<longleftrightarrow> 0x41 \<le> c \<and> c \<le> 0x5A"

text \<open>Template literals print a number in decimal (\<open>${index + 1}\<close>).\<close>

fun show_nat :: "nat \<Rightarrow> jsstring" where
  "show_nat n = (if n < 10 then [of_nat (48 + n)] else show_nat (n div 10) @ [of_nat (48 + n mod 10)])"

declare show_nat.simps [simp del]

text \<open>\<open>a || b\<close> on a nullable string: \<open>null\<close> and the empty string are falsy.\<close>

definition js_or :: "jsstring option \<Rightarrow> jsstring \<Rightarrow> jsstring" where
  "js_or a b = (case a of None \<Rightarrow> b | Some s \<Rightarrow> if s = [] then b else s)"

section \<open>process-document: segmentation\<close>

subsection \<open>chunkText\<close>

text \<open>
  \<open>text.split(/(?<=[.!?])\s+/)\<close>: the text is cut at every maximal run of white space that
  directly follows one of \<open>. ! ?\<close>; the run is dropped. \<open>acc\<close> holds the current piece,
  reversed. A run that ends the text leaves an empty last piece, as in JavaScript.
\<close>

function split_sentences_from :: "jsstring \<Rightarrow> jsstring \<Rightarrow> jsstring list" where
  "split_sentences_from acc [] = [rev acc]"
| "split_sentences_from acc (c # cs) =
     (if sentence_end c \<and> cs \<noteq> [] \<and> js_space (hd cs)
      then rev (c # acc) # split_sentences_from [] (dropWhile js_space cs)
      else split_sentences_from (c # acc) cs)"
  by pat_completeness auto
termination
  by (relation "measure (\<lambda>(acc, s). length s)") (auto simp: length_dropWhile_le less_Suc_eq_le)

definition split_sentences :: "jsstring \<Rightarrow> jsstring list" where
  "split_sentences text = split_sentences_from [] text"

text \<open>
  The \<open>for\<close> loop of \<open>chunkText\<close> over the sentences, with its two variables \<open>chunks\<close> and
  \<open>currentChunk\<close>; a non-empty string is truthy.
\<close>

fun chunk_loop :: "nat \<Rightarrow> jsstring list \<Rightarrow> jsstring list \<Rightarrow> jsstring \<Rightarrow> jsstring list \<times> jsstring" where
  "chunk_loop maxChunkSize [] chunks currentChunk = (chunks, currentChunk)"
| "chunk_loop maxChunkSize (sentence # rest) chunks currentChunk =
     (if length currentChunk + length sentence > maxChunkSize \<and> currentChunk \<noteq> []
      then chunk_loop maxChunkSize rest (chunks @ [trim currentChunk]) sentence
      else chunk_loop maxChunkSize rest chunks
             (currentChunk @ (if currentChunk \<noteq> [] then js '' '' else []) @ sentence))"

definition chunkText :: "jsstring \<Rightarrow> nat \<Rightarrow> jsstring list" where
  "chunkText text maxChunkSize =
     (case chunk_loop maxChunkSize (split_sentences text) [] [] of
        (chunks, currentChunk) \<Rightarrow>
          if trim currentChunk \<noteq> [] then chunks @ [trim currentChunk] else chunks)"

text \<open>The default value of the parameter, which is what \<open>serve\<close> uses.\<close>

definition defaultMaxChunkSize :: nat where
  "defaultMaxChunkSize = 1500"

subsection \<open>extractSections\<close>

record section_rec =
  s_section :: jsstring
  s_subsection :: jsstring
  s_content :: jsstring
  s_page :: nat

text \<open>
  \<open>text.split(/\n|(?<=\.)\s+(?=[A-Z])/)\<close>: a line feed always separates; otherwise a maximal
  run of white space separates when it follows a full stop and precedes a capital letter.
  The first alternative is tried first, so a line feed is consumed alone.
\<close>

function split_lines_from :: "jsstring \<Rightarrow> jsstring \<Rightarrow> jsstring list" where
  "split_lines_from acc [] = [rev acc]"
| "split_lines_from acc (c # cs) =
     (if c = 0xA then rev acc # split_lines_from [] cs
      else if js_space c \<and> acc \<noteq> [] \<and> hd acc = 0x2E
              \<and> dropWhile js_space cs \<noteq> [] \<and> js_upper (hd (dropWhile js_space cs))
      then rev acc # split_lines_from [] (dropWhile js_space cs)
      else split_lines_from (c # acc) cs)"
  by pat_completeness auto
termination
  by (relation "measure (\<lambda>(acc, s). length s)") (auto simp: length_dropWhile_le less_Suc_eq_le)

text \<open>
  \<open>line.match(/^(\d+(?:\.\d+)*)\s+/)\<close>: the first group, when the line matches. The greedy
  reading is the only one that can be followed by white space.
\<close>

function dotted_numbers :: "jsstring \<Rightarrow> jsstring \<times> jsstring" where
  "dotted_numbers s =
     (case s of
        [] \<Rightarrow> ([], [])
      | d # t \<Rightarrow>
          if d = 0x2E \<and> t \<noteq> [] \<and> js_digit (hd t)
          then (case dotted_numbers (dropWhile js_digit t) of
                  (g, r) \<Rightarrow> (d # takeWhile js_digit t @ g, r))
          else ([], s))"
  by pat_completeness auto
termination
  by (relation "measure length") (auto simp: length_dropWhile_le less_Suc_eq_le)

declare dotted_numbers.simps [simp del]

definition section_number :: "jsstring \<Rightarrow> jsstring option" where
  "section_number line =
     (if takeWhile js_digit line = [] then None
      else case dotted_numbers (dropWhile js_digit line) of
        (g, r) \<Rightarrow> if r \<noteq> [] \<and> js_space (hd r) then Some (takeWhile js_digit line @ g) else None)"

record extract_state =
  sections :: "section_rec list"
  currentSection :: jsstring
  currentSubsection :: jsstring
  currentContent :: jsstring
  estimatedPage :: nat
  charCount :: nat

definition save_section :: "extract_state \<Rightarrow> section_rec list" where
  "save_section st =
     (if trim (currentContent st) \<noteq> []
      then sections st @
           [\<lparr>s_section = currentSection st, s_subsection = currentSubsection st,
             s_content = trim (currentContent st), s_page = estimatedPage st\<rparr>]
      else sections st)"

text \<open>One turn of the loop over the lines; \<open>Math.ceil(charCount / 3000)\<close> on naturals.\<close>

definition extract_step :: "extract_state \<Rightarrow> jsstring \<Rightarrow> extract_state" where
  "extract_step st0 line =
     (let st = st0\<lparr>charCount := charCount st0 + length line,
                   estimatedPage := (charCount st0 + length line + 2999) div 3000\<rparr>
      in case section_number line of
           Some num \<Rightarrow>
             st\<lparr>sections := save_section st,
                currentSection := takeWhile (\<lambda>c. c \<noteq> 0x2E) num,
                currentSubsection := num,
                currentContent := line\<rparr>
         | None \<Rightarrow> st\<lparr>currentContent := currentContent st @ js '' '' @ line\<rparr>)"

definition extractSections :: "jsstring \<Rightarrow> section_rec list" where
  "extractSections text =
     save_section
       (foldl extract_step
          \<lparr>sections = [], currentSection = js ''1'', currentSubsection = [],
           currentContent = [], estimatedPage = 1, charCount = 0\<rparr>
          (split_lines_from [] text))"

subsection \<open>Chunk drafts with dense ordinals\<close>

text \<open>An element of \<open>allChunks\<close>.\<close>

record chunk_draft =
  document_id :: jsstring
  chunk_index :: nat
  content :: jsstring
  c_section :: jsstring
  c_subsection :: jsstring
  page_number :: nat

text \<open>
  The inner loop over the chunks of one section: each is pushed with the running
  \<open>chunkIndex\<close>, which is then incremented.
\<close>

definition push_section_chunk ::
  "jsstring \<Rightarrow> section_rec \<Rightarrow> chunk_draft list \<times> nat \<Rightarrow> jsstring \<Rightarrow> chunk_draft list \<times> nat" where
  "push_section_chunk documentId sec st chunkContent =
     (case st of (allChunks, chunkIndex) \<Rightarrow>
        (allChunks @
           [\<lparr>document_id = documentId, chunk_index = chunkIndex, content = chunkContent,
             c_section = s_section sec, c_subsection = s_subsection sec,
             page_number = s_page sec\<rparr>],
         chunkIndex + 1))"

definition section_chunks ::
  "jsstring \<Rightarrow> chunk_draft list \<times> nat \<Rightarrow> section_rec \<Rightarrow> chunk_draft list \<times> nat" where
  "section_chunks documentId st sec =
     foldl (push_section_chunk documentId sec) st (chunkText (s_content sec) defaultMaxChunkSize)"

text \<open>The fallback loop: one implicit section \<open>"1"\<close>, a page counter that starts at 1.\<close>

definition push_fallback_chunk ::
  "jsstring \<Rightarrow> chunk_draft list \<times> nat \<times> nat \<Rightarrow> jsstring \<Rightarrow> chunk_draft list \<times> nat \<times> nat" where
  "push_fallback_chunk documentId st chunkContent =
     (case st of (allChunks, chunkIndex, page) \<Rightarrow>
        (allChunks @
           [\<lparr>document_id = documentId, chunk_index = chunkIndex, content = chunkContent,
             c_section = js ''1'', c_subsection = [], page_number = page\<rparr>],
         chunkIndex + 1, page + 1))"

definition build_chunks :: "jsstring \<Rightarrow> section_rec list \<Rightarrow> jsstring \<Rightarrow> chunk_draft list" where
  "build_chunks documentId secs extractedText =
     (if length secs > 0
      then fst (foldl (section_chunks documentId) ([], 0) secs)
      else fst (foldl (push_fallback_chunk documentId) ([], 0, 1)
                  (chunkText extractedText defaultMaxChunkSize)))"

section \<open>process-document: the chunk store\<close>

text \<open>
  The two tables the function touches. A table is the list of its rows in the order the
  database scans them; an insert appends. Columns the code never reads (\<open>id\<close>,
  \<open>created_at\<close>, \<open>uploaded_at\<close>) are left out.
\<close>

record iso_chunk =
  row_document_id :: jsstring
  row_chunk_index :: nat
  row_content :: jsstring
  row_section :: "jsstring option"
  row_subsection :: "jsstring option"
  row_page_number :: "nat option"

record iso_document =
  doc_id :: jsstring
  filename :: jsstring
  title :: "jsstring option"
  processed :: bool

record database =
  iso_chunks :: "iso_chunk list"
  iso_documents :: "iso_document list"

definition to_row :: "chunk_draft \<Rightarrow> iso_chunk" where
  "to_row c =
     \<lparr>row_document_id = document_id c, row_chunk_index = chunk_index c,
      row_content = content c, row_section = Some (c_section c),
      row_subsection = Some (c_subsection c), row_page_number = Some (page_number c)\<rparr>"

text \<open>
  What the outside world does during one call. The results of \<open>delete\<close> and \<open>update\<close> are
  awaited but their \<open>error\<close> is never read, so a failed one is a silent no-op; the
  \<open>k\<close>-th \<open>insert\<close> (counting from 0) either stores its whole batch or reports an error
  message. \<open>extractTextFromPDF(buffer)\<close> and \<open>fileData.text()\<close> are taken as given.
\<close>

record file_data =
  pdf_text :: jsstring
  raw_text :: jsstring

record process_env =
  download :: "jsstring \<Rightarrow> jsstring + file_data"
  delete_ok :: bool
  insert_error :: "nat \<Rightarrow> jsstring option"
  update_ok :: bool

definition batchSize :: nat where
  "batchSize = 50"

definition delete_chunks :: "process_env \<Rightarrow> jsstring \<Rightarrow> database \<Rightarrow> database" where
  "delete_chunks env documentId db =
     (if delete_ok env
      then db\<lparr>iso_chunks := filter (\<lambda>r. row_document_id r \<noteq> documentId) (iso_chunks db)\<rparr>
      else db)"

text \<open>
  \<open>for (let i = 0; i < allChunks.length; i += batchSize)\<close>: the first failing insert throws
  out of the loop; the batches stored before it stay.
\<close>

function insert_batches ::
  "process_env \<Rightarrow> chunk_draft list \<Rightarrow> nat \<Rightarrow> database \<Rightarrow> (jsstring + unit) \<times> database" where
  "insert_batches env allChunks i db =
     (if i < length allChunks
      then (case insert_error env (i div batchSize) of
              Some message \<Rightarrow> (Inl (js ''Failed to insert chunks: '' @ message), db)
            | None \<Rightarrow>
                insert_batches env allChunks (i + batchSize)
                  (db\<lparr>iso_chunks := iso_chunks db @ map to_row (take batchSize (drop i allChunks))\<rparr>))
      else (Inr (), db))"
  by pat_completeness auto
termination
  by (relation "measure (\<lambda>(env, allChunks, i, db). length allChunks - i)")
     (auto simp: batchSize_def)

declare insert_batches.simps [simp del]

definition mark_processed :: "process_env \<Rightarrow> jsstring \<Rightarrow> database \<Rightarrow> database" where
  "mark_processed env documentId db =
     (if update_ok env
      then db\<lparr>iso_documents :=
                map (\<lambda>d. if doc_id d = documentId then d\<lparr>processed := True\<rparr> else d)
                    (iso_documents db)\<rparr>
      else db)"

text \<open>Delete the old chunks, insert the new ones in batches, mark the document.\<close>

definition put_chunks ::
  "process_env \<Rightarrow> jsstring \<Rightarrow> chunk_draft list \<Rightarrow> database \<Rightarrow> (jsstring + unit) \<times> database" where
  "put_chunks env documentId allChunks db =
     (case insert_batches env allChunks 0 (delete_chunks env documentId db) of
        (Inl message, db') \<Rightarrow> (Inl message, db')
      | (Inr u, db') \<Rightarrow> (Inr (), mark_processed env documentId db'))"


subsection \<open>serve\<close>

record process_request =
  documentId :: jsstring
  filePath :: jsstring
  req_filename :: jsstring

datatype process_body =
    NoBody
  | ProcessError jsstring
  | ProcessSuccess (chunks_created: nat) (text_length: nat) (sections_found: nat)

record process_response =
  status :: nat
  body :: process_body

datatype http_request = Options | Post "process_request option"

definition extraction_error :: jsstring where
  "extraction_error =
     js ''Could not extract meaningful text from the document. The PDF might be image-based and require OCR.''"

definition extracted_text :: "file_data \<Rightarrow> jsstring" where
  "extracted_text fileData =
     (if length (pdf_text fileData) < 100 then raw_text fileData else pdf_text fileData)"

text \<open>
  The handler. Every \<open>throw\<close> lands in the one \<open>catch\<close>, which answers 500 with the
  message; a body that is not JSON throws as well (its message comes from the runtime and
  is not modelled).
\<close>

definition process_document ::
  "process_env \<Rightarrow> http_request \<Rightarrow> database \<Rightarrow> process_response \<times> database" where
  "process_document env req db =
     (case req of
        Options \<Rightarrow> (\<lparr>status = 200, body = NoBody\<rparr>, db)
      | Post None \<Rightarrow> (\<lparr>status = 500, body = ProcessError []\<rparr>, db)
      | Post (Some r) \<Rightarrow>
          (case download env (filePath r) of
             Inl message \<Rightarrow>
               (\<lparr>status = 500, body = ProcessError (js ''Failed to download file: '' @ message)\<rparr>, db)
           | Inr fileData \<Rightarrow>
               if length (extracted_text fileData) < 50
               then (\<lparr>status = 500, body = ProcessError extraction_error\<rparr>, db)
               else
                 let secs = extractSections (extracted_text fileData);
                     allChunks = build_chunks (documentId r) secs (extracted_text fileData)
                 in (case put_chunks env (documentId r) allChunks db of
                       (Inl message, db') \<Rightarrow> (\<lparr>status = 500, body = ProcessError message\<rparr>, db')
                     | (Inr u, db') \<Rightarrow>
                         (\<lparr>status = 200,
                           body = ProcessSuccess (length allChunks)
                                    (length (extracted_text fileData)) (length secs)\<rparr>, db'))))"

section \<open>chat: retrieval, context and prompt\<close>

subsection \<open>Query terms\<close>

text \<open>
  \<open>s.split(/\s+/)\<close>: the string is cut at every maximal run of white space; white space at
  the start or at the end leaves an empty first or last piece.
\<close>

function split_spaces_from :: "jsstring \<Rightarrow> jsstring \<Rightarrow> jsstring list" where
  "split_spaces_from acc [] = [rev acc]"
| "split_spaces_from acc (c # cs) =
     (if js_space c then rev acc # split_spaces_from [] (dropWhile js_space cs)
      else split_spaces_from (c # acc) cs)"
  by pat_completeness auto
termination
  by (relation "measure (\<lambda>(acc, s). length s)") (auto simp: length_dropWhile_le less_Suc_eq_le)

fun js_join :: "jsstring \<Rightarrow> jsstring list \<Rightarrow> jsstring" where
  "js_join sep [] = []"
| "js_join sep [x] = x"
| "js_join sep (x # y # ys) = x @ sep @ js_join sep (y # ys)"

text \<open>
  What the outside world does during one chat call. \<open>toLowerCase\<close> is the built-in
  (its Unicode tables are not reproduced); \<open>textSearch_match q c\<close> says whether the content
  \<open>c\<close> matches the \<open>websearch\<close> query \<open>q\<close> under the French configuration, and
  \<open>ilike k c\<close> whether \<open>c ILIKE %k%\<close>; either query may fail as a whole. The gateway
  answers with a status other than 2xx, or with a body whose first choice may lack a
  content.
\<close>

datatype gateway_response = GatewayOk "jsstring option" | GatewayStatus nat

record chat_env =
  LOVABLE_API_KEY :: "jsstring option"
  toLowerCase :: "jsstring \<Rightarrow> jsstring"
  textSearch_error :: bool
  textSearch_match :: "jsstring \<Rightarrow> jsstring \<Rightarrow> bool"
  ilike_error :: bool
  ilike :: "jsstring \<Rightarrow> jsstring \<Rightarrow> bool"
  gateway :: "jsstring \<Rightarrow> jsstring \<Rightarrow> gateway_response"

definition searchTerms :: "chat_env \<Rightarrow> jsstring \<Rightarrow> jsstring" where
  "searchTerms env question =
     js_join (js '' & '')
       (filter (\<lambda>term. length term > 2) (split_spaces_from [] (toLowerCase env question)))"

definition keywords_of :: "jsstring \<Rightarrow> jsstring list" where
  "keywords_of question = take 3 (filter (\<lambda>w. length w > 3) (split_spaces_from [] question))"

subsection \<open>The two queries\<close>

text \<open>A selected row with its embedded document (\<open>iso_documents (filename, title)\<close>).\<close>

record ISOChunk =
  ch_content :: jsstring
  ch_section :: "jsstring option"
  ch_subsection :: "jsstring option"
  ch_page_number :: "nat option"
  ch_chunk_index :: nat
  ch_document_id :: jsstring
  ch_iso_documents :: "iso_document option"

definition select_chunk :: "database \<Rightarrow> iso_chunk \<Rightarrow> ISOChunk" where
  "select_chunk db r =
     \<lparr>ch_content = row_content r, ch_section = row_section r,
      ch_subsection = row_subsection r, ch_page_number = row_page_number r,
      ch_chunk_index = row_chunk_index r, ch_document_id = row_document_id r,
      ch_iso_documents = find (\<lambda>d. doc_id d = row_document_id r) (iso_documents db)\<rparr>"

text \<open>
  Both queries filter \<open>iso_chunks\<close> and end with \<open>.limit(5)\<close>; neither has an
  \<open>order\<close> clause, so the rows come in the order of the table.
\<close>

definition textSearch :: "chat_env \<Rightarrow> database \<Rightarrow> jsstring \<Rightarrow> ISOChunk list option" where
  "textSearch env db terms =
     (if textSearch_error env then None
      else Some (map (select_chunk db)
             (take 5 (filter (\<lambda>r. textSearch_match env terms (row_content r)) (iso_chunks db)))))"

definition ilikeSearch :: "chat_env \<Rightarrow> database \<Rightarrow> jsstring list \<Rightarrow> ISOChunk list option" where
  "ilikeSearch env db ks =
     (if ilike_error env then None
      else Some (map (select_chunk db)
             (take 5 (filter (\<lambda>r. list_ex (\<lambda>k. ilike env k (row_content r)) ks) (iso_chunks db)))))"

definition fallbackChunks :: "chat_env \<Rightarrow> database \<Rightarrow> jsstring \<Rightarrow> ISOChunk list" where
  "fallbackChunks env db question =
     (if length (keywords_of question) > 0
      then (case ilikeSearch env db (keywords_of question) of
              Some rows \<Rightarrow> rows
            | None \<Rightarrow> [])
      else [])"

definition relevantChunks :: "chat_env \<Rightarrow> database \<Rightarrow> jsstring \<Rightarrow> ISOChunk list" where
  "relevantChunks env db question =
     (case textSearch env db (searchTerms env question) of
        Some chunks \<Rightarrow> if length chunks > 0 then chunks else fallbackChunks env db question
      | None \<Rightarrow> fallbackChunks env db question)"

subsection \<open>Context and sources\<close>

record Source =
  src_document :: jsstring
  src_section :: jsstring
  src_subsection :: jsstring
  chunk_id :: nat
  src_page :: "nat option"

definition context_header :: jsstring where
  "context_header = js ''Contexte ISO pertinent:'' @ [0xA, 0xA]"

definition source_tag :: "nat \<Rightarrow> ISOChunk \<Rightarrow> jsstring" where
  "source_tag index chunk =
     js ''[Source '' @ show_nat (index + 1) @ js ''] Document: '' @
     js_or (map_option filename (ch_iso_documents chunk)) (js ''Unknown'') @
     js '', Section: '' @ js_or (ch_section chunk) (js ''N/A'') @
     js '', Sous-section: '' @ js_or (ch_subsection chunk) (js ''N/A'') @ [0xA]"

definition to_source :: "ISOChunk \<Rightarrow> Source" where
  "to_source chunk =
     \<lparr>src_document = js_or (map_option filename (ch_iso_documents chunk)) (js ''Document inconnu''),
      src_section = js_or (ch_section chunk) (js ''N/A''),
      src_subsection = js_or (ch_subsection chunk) (js ''N/A''),
      chunk_id = ch_chunk_index chunk,
      src_page = ch_page_number chunk\<rparr>"

text \<open>\<open>relevantChunks.forEach((chunk, index) => \<dots>)\<close> on \<open>context\<close> and \<open>sources\<close>.\<close>

fun forEach_chunk :: "nat \<Rightarrow> ISOChunk list \<Rightarrow> jsstring \<times> Source list \<Rightarrow> jsstring \<times> Source list" where
  "forEach_chunk index [] st = st"
| "forEach_chunk index (chunk # rest) (context, sources) =
     forEach_chunk (index + 1) rest
       (context @ source_tag index chunk @ ch_content chunk @ [0xA, 0xA],
        sources @ [to_source chunk])"

definition build_context :: "ISOChunk list \<Rightarrow> jsstring \<times> Source list" where
  "build_context chunks =
     (if length chunks > 0 then forEach_chunk 0 chunks (context_header, []) else ([], []))"

subsection \<open>The prompt\<close>

text \<open>
  The fixed part of the template, in three pieces: the role with the heading of the rules,
  rules 1 and 2 (answer from the context only; when the information is not in the context,
  answer that it was not found), and rules 3 to 5.
\<close>

definition prompt_role :: jsstring where
  "prompt_role =
     js ''Tu es un assistant expert en conformit'' @ [0xE9] @ js '' ISO, sp'' @
     [0xE9] @ js ''cialis'' @ [0xE9] @
     js '' dans la norme ISO 9001:2015 et autres normes de management '' @
     js ''de la qualit'' @ [0xE9] @ js ''.'' @ [0xA, 0xA] @ js ''R'' @ [0xC8] @
     js ''GLES STRICTES:'' @ [0xA]"

definition grounding_rules :: jsstring where
  "grounding_rules =
     js ''1. Tu DOIS r'' @ [0xE9] @
     js ''pondre UNIQUEMENT en utilisant les informations fournies '' @
     js ''dans le contexte ISO ci-dessous.'' @ [0xA] @
     js ''2. Si l'information n'est PAS dans le contexte, r'' @ [0xE9] @
     js ''ponds: '' @ [0x22] @ js ''Information non trouv'' @ [0xE9] @
     js ''e dans la norme ISO disponible.'' @ [0x22, 0xA]"

definition style_rules :: jsstring where
  "style_rules =
     js ''3. Chaque r'' @ [0xE9] @ js ''ponse DOIT '' @ [0xEA] @ js ''tre pr'' @
     [0xE9] @ js ''cise et citer les sources.'' @ [0xA] @ js ''4. R'' @ [0xE9] @
     js ''ponds en fran'' @ [0xE7] @ js ''ais.'' @ [0xA] @
     js ''5. Sois concis mais complet.'' @ [0xA, 0xA]"

definition prompt_rules :: jsstring where
  "prompt_rules = prompt_role @ grounding_rules @ style_rules"

definition no_document_notice :: jsstring where
  "no_document_notice =
     js ''AUCUN DOCUMENT ISO N'A '' @ [0xC9] @ js ''T'' @ [0xC9] @ js '' TROUV'' @
     [0xC9] @ js '' DANS LA BASE DE DONN'' @ [0xC9] @
     js ''ES. Informe l'utilisateur qu'il doit d'abord charger des '' @
     js ''documents ISO.''"

definition systemPrompt :: "jsstring \<Rightarrow> jsstring" where
  "systemPrompt context = prompt_rules @ (if context \<noteq> [] then context else no_document_notice)"

subsection \<open>serve\<close>

record chat_request =
  req_question :: "jsstring option"
  req_conversationId :: "jsstring option"

datatype chat_http_request = ChatOptions | ChatPost "chat_request option"

datatype chat_body = ChatNoBody | ChatError jsstring | ChatAnswer jsstring "Source list option"

record chat_response =
  chat_status :: nat
  chat_body :: chat_body

record chat_message =
  conversation_id :: jsstring
  role :: jsstring
  message_content :: jsstring
  message_sources :: "Source list option"

definition sources_or_null :: "Source list \<Rightarrow> Source list option" where
  "sources_or_null sources = (if length sources > 0 then Some sources else None)"

text \<open>
  What the handler does with the gateway's response: 429 and 402 are passed on, any other
  failure is a 500; an answer is returned with the sources and, when the request names a
  conversation, stored with the question in \<open>chat_messages\<close>.
\<close>

definition chat_reply ::
  "chat_request \<Rightarrow> jsstring \<Rightarrow> Source list \<Rightarrow> gateway_response \<Rightarrow> chat_message list
     \<Rightarrow> chat_response \<times> chat_message list" where
  "chat_reply r question sources response messages =
     (case response of
        GatewayStatus code \<Rightarrow>
          if code = 429
          then (\<lparr>chat_status = 429, chat_body = ChatError
                  (js ''Limite de requ'' @ [0xEA] @ js ''tes atteinte. Veuillez r'' @ [0xE9] @ js ''essayer plus tard.'')\<rparr>, messages)
          else if code = 402
          then (\<lparr>chat_status = 402, chat_body = ChatError
                  (js ''Cr'' @ [0xE9] @ js ''dits insuffisants. Veuillez recharger votre compte.'')\<rparr>, messages)
          else (\<lparr>chat_status = 500, chat_body = ChatError (js ''Erreur du service IA'')\<rparr>,
                messages)
      | GatewayOk reply \<Rightarrow>
          let answer = js_or reply (js ''Impossible de g'' @ [0xE9] @ js ''n'' @ [0xE9] @ js ''rer une r'' @ [0xE9] @ js ''ponse.'')
          in (\<lparr>chat_status = 200, chat_body = ChatAnswer answer (sources_or_null sources)\<rparr>,
              if js_or (req_conversationId r) [] \<noteq> []
              then messages @
                [\<lparr>conversation_id = js_or (req_conversationId r) [], role = js ''user'',
                  message_content = question, message_sources = None\<rparr>,
                 \<lparr>conversation_id = js_or (req_conversationId r) [], role = js ''assistant'',
                  message_content = answer, message_sources = sources_or_null sources\<rparr>]
              else messages))"

text \<open>
  The handler, with the \<open>chat_messages\<close> table as its only state. The gateway is called
  once, with \<open>systemPrompt\<close> of the context built from \<open>relevantChunks\<close> and with the
  question. A body that is not JSON throws (its message comes from the runtime and is not
  modelled).
\<close>

definition chat ::
  "chat_env \<Rightarrow> chat_http_request \<Rightarrow> database \<Rightarrow> chat_message list \<Rightarrow> chat_response \<times> chat_message list" where
  "chat env req db messages =
     (case req of
        ChatOptions \<Rightarrow> (\<lparr>chat_status = 200, chat_body = ChatNoBody\<rparr>, messages)
      | ChatPost None \<Rightarrow> (\<lparr>chat_status = 500, chat_body = ChatError []\<rparr>, messages)
      | ChatPost (Some r) \<Rightarrow>
          if js_or (req_question r) [] = []
          then (\<lparr>chat_status = 400, chat_body = ChatError (js ''Question is required'')\<rparr>, messages)
          else if js_or (LOVABLE_API_KEY env) [] = []
          then (\<lparr>chat_status = 500,
                 chat_body = ChatError (js ''LOVABLE_API_KEY is not configured'')\<rparr>, messages)
          else
            let question = js_or (req_question r) [];
                (context, sources) = build_context (relevantChunks env db question)
            in chat_reply r question sources (gateway env (systemPrompt context) question) messages)"

section \<open>Predicates of the statements\<close>

text \<open>A string with at least one character that is not white space.\<close>

definition has_text :: "jsstring \<Rightarrow> bool" where
  "has_text s \<longleftrightarrow> (\<exists>c\<in>set s. \<not> js_space c)"


text \<open>
  The three processing statuses the specification gives a Document (\<open>unprocessed\<close>,
  \<open>processed\<close>, \<open>failed\<close>), in which claim C7 is worded. The table \<open>iso_documents\<close> stores
  one boolean column \<open>processed\<close>, which reads as a status as follows.
\<close>

datatype processing_status = Unprocessed | Processed | Failed

definition document_status :: "iso_document \<Rightarrow> processing_status" where
  "document_status d = (if processed d then Processed else Unprocessed)"





text \<open>One entry of the context: the provenance tag, the content, an empty line.\<close>

definition context_entry :: "nat \<times> ISOChunk \<Rightarrow> jsstring" where
  "context_entry ic = source_tag (fst ic) (snd ic) @ ch_content (snd ic) @ [0xA, 0xA]"

section \<open>Concrete inputs\<close>


definition old_row :: iso_chunk where
  "old_row = \<lparr>row_document_id = js ''d'', row_chunk_index = 0, row_content = js ''Old text.'',
     row_section = Some (js ''1''), row_subsection = Some [], row_page_number = Some 1\<rparr>"


definition store0 :: database where
  "store0 = \<lparr>iso_chunks = [old_row],
     iso_documents = [\<lparr>doc_id = js ''d'', filename = js ''a.pdf'', title = None, processed = False\<rparr>]\<rparr>"

definition short_file :: file_data where
  "short_file = \<lparr>pdf_text = [], raw_text = js ''Too short.''\<rparr>"

definition short_env :: process_env where
  "short_env = \<lparr>download = (\<lambda>p. Inr short_file), delete_ok = True,
     insert_error = (\<lambda>k. None), update_ok = True\<rparr>"

definition short_request :: process_request where
  "short_request = \<lparr>documentId = js ''d'', filePath = js ''d/a.pdf'', req_filename = js ''a.pdf''\<rparr>"







section \<open>Ordinals of the chunk drafts\<close>

lemma push_section_chunk_simp:
  "push_section_chunk d sec (acc, n) c =
     (acc @ [\<lparr>document_id = d, chunk_index = n, content = c, c_section = s_section sec,
               c_subsection = s_subsection sec, page_number = s_page sec\<rparr>], Suc n)"
  by (simp add: push_section_chunk_def)

lemma push_fallback_chunk_simp:
  "push_fallback_chunk d (acc, n, p) c =
     (acc @ [\<lparr>document_id = d, chunk_index = n, content = c, c_section = js ''1'',
               c_subsection = [], page_number = p\<rparr>], Suc n, Suc p)"
  by (simp add: push_fallback_chunk_def)

lemma push_section_chunk_fold:
  "foldl (push_section_chunk d sec) (acc, n) cs = (acc', n') \<Longrightarrow>
     map chunk_index acc' = map chunk_index acc @ [n ..< n + length cs] \<and> n' = n + length cs"
proof (induction cs arbitrary: acc n)
  case Nil
  then show ?case by simp
next
  case (Cons c cs)
  from Cons.prems
  have "foldl (push_section_chunk d sec)
          (acc @ [\<lparr>document_id = d, chunk_index = n, content = c, c_section = s_section sec,
                    c_subsection = s_subsection sec, page_number = s_page sec\<rparr>], Suc n) cs = (acc', n')"
    by (simp add: push_section_chunk_simp)
  from Cons.IH [OF this]
  have "map chunk_index acc' = map chunk_index acc @ n # [Suc n ..< Suc n + length cs]"
    and "n' = n + length (c # cs)"
    by simp_all
  moreover have "[n ..< n + length (c # cs)] = n # [Suc n ..< Suc n + length cs]"
    by (simp add: upt_conv_Cons del: upt_Suc)
  ultimately show ?case by (simp del: upt_Suc)
qed

lemma push_fallback_chunk_fold:
  "foldl (push_fallback_chunk d) (acc, n, p) cs = (acc', n', p') \<Longrightarrow>
     map chunk_index acc' = map chunk_index acc @ [n ..< n + length cs] \<and> n' = n + length cs"
proof (induction cs arbitrary: acc n p)
  case Nil
  then show ?case by simp
next
  case (Cons c cs)
  from Cons.prems
  have "foldl (push_fallback_chunk d)
          (acc @ [\<lparr>document_id = d, chunk_index = n, content = c, c_section = js ''1'',
                    c_subsection = [], page_number = p\<rparr>], Suc n, Suc p) cs = (acc', n', p')"
    by (simp add: push_fallback_chunk_simp)
  from Cons.IH [OF this]
  have "map chunk_index acc' = map chunk_index acc @ n # [Suc n ..< Suc n + length cs]"
    and "n' = n + length (c # cs)"
    by simp_all
  moreover have "[n ..< n + length (c # cs)] = n # [Suc n ..< Suc n + length cs]"
    by (simp add: upt_conv_Cons del: upt_Suc)
  ultimately show ?case by (simp del: upt_Suc)
qed

lemma section_chunks_fold:
  "foldl (section_chunks d) (acc, n) secs = (acc', n') \<Longrightarrow> map chunk_index acc = [0 ..< n] \<Longrightarrow>
     map chunk_index acc' = [0 ..< n']"
proof (induction secs arbitrary: acc n)
  case Nil
  then show ?case by simp
next
  case (Cons sec secs)
  obtain acc1 n1 where step: "section_chunks d (acc, n) sec = (acc1, n1)"
    by (cases "section_chunks d (acc, n) sec")
  then have "map chunk_index acc1 = map chunk_index acc @ [n ..< n + length (chunkText (s_content sec) defaultMaxChunkSize)]
      \<and> n1 = n + length (chunkText (s_content sec) defaultMaxChunkSize)"
    unfolding section_chunks_def by (rule push_section_chunk_fold)
  with Cons.prems(2) have a: "map chunk_index acc1 = [0 ..< n1]"
    by (simp add: upt_add_eq_append [of 0])
  from Cons.prems(1) step have b: "foldl (section_chunks d) (acc1, n1) secs = (acc', n')"
    by simp
  from b a show ?case by (rule Cons.IH)
qed

text \<open>
  C5. The ordinals \<open>chunk_index\<close> assigned to the chunk drafts of one document, over all its
  sections (or over the fallback section), are \<open>0, 1, \<dots>, N - 1\<close> in this order, where \<open>N\<close>
  is the number of drafts: strictly increasing, no gap, no duplicate. The statement holds
  for every list of sections, so for the one \<open>extractSections\<close> returns.
\<close>

theorem chunk_index_dense:
  "map chunk_index (build_chunks d secs txt) = [0 ..< length (build_chunks d secs txt)]"
proof -
  have "\<exists>n. map chunk_index (build_chunks d secs txt) = [0 ..< n]"
  proof (cases "length secs > 0")
    case True
    obtain acc' n' where r: "foldl (section_chunks d) ([], 0) secs = (acc', n')"
      by (cases "foldl (section_chunks d) ([], 0) secs")
    from section_chunks_fold [OF r] have "map chunk_index acc' = [0 ..< n']" by simp
    with True r show ?thesis by (auto simp: build_chunks_def)
  next
    case False
    obtain acc' n' p' where r:
      "foldl (push_fallback_chunk d) ([], 0, 1) (chunkText txt defaultMaxChunkSize) = (acc', n', p')"
      by (cases "foldl (push_fallback_chunk d) ([], 0, 1) (chunkText txt defaultMaxChunkSize)") auto
    from push_fallback_chunk_fold [OF r] have "map chunk_index acc' = [0 ..< n']" by simp
    with False r show ?thesis by (auto simp: build_chunks_def)
  qed
  then obtain n where n: "map chunk_index (build_chunks d secs txt) = [0 ..< n]" ..
  then have "length (map chunk_index (build_chunks d secs txt)) = length [0 ..< n]"
    by simp
  then have "length (build_chunks d secs txt) = n"
    by simp
  with n show ?thesis by simp
qed

section \<open>Segmentation\<close>

subsection \<open>White space, trimming and the sentence split\<close>

lemma sentence_end_not_space: "sentence_end c \<Longrightarrow> \<not> js_space c"
  by (auto simp: sentence_end_def js_space_def)

lemma filter_js_blank [simp]: "filter (\<lambda>c. \<not> js_space c) (js '' '') = []"
  by (simp add: js_def js_space_def)

lemma filter_dropWhile_space:
  "filter (\<lambda>c. \<not> js_space c) (dropWhile js_space s) = filter (\<lambda>c. \<not> js_space c) s"
  by (induction s) auto

lemma filter_trim: "filter (\<lambda>c. \<not> js_space c) (trim s) = filter (\<lambda>c. \<not> js_space c) s"
proof -
  have "filter (\<lambda>c. \<not> js_space c) (trim s)
      = rev (filter (\<lambda>c. \<not> js_space c) (dropWhile js_space (rev (dropWhile js_space s))))"
    by (simp add: trim_def rev_filter)
  also have "\<dots> = rev (filter (\<lambda>c. \<not> js_space c) (rev (dropWhile js_space s)))"
    by (simp only: filter_dropWhile_space)
  also have "\<dots> = filter (\<lambda>c. \<not> js_space c) s"
    by (simp add: rev_filter filter_dropWhile_space)
  finally show ?thesis .
qed

lemma trim_empty_iff: "trim s = [] \<longleftrightarrow> (\<forall>c\<in>set s. js_space c)"
proof
  assume "trim s = []"
  then have "filter (\<lambda>c. \<not> js_space c) s = []"
    using filter_trim [of s] by simp
  then show "\<forall>c\<in>set s. js_space c"
    by (simp add: filter_empty_conv)
next
  assume "\<forall>c\<in>set s. js_space c"
  then have e: "dropWhile js_space s = []" by (induction s) simp_all
  show "trim s = []" unfolding trim_def e by simp
qed

lemma trim_has_text: "\<exists>c\<in>set s. \<not> js_space c \<Longrightarrow> trim s \<noteq> [] \<and> (\<exists>c\<in>set (trim s). \<not> js_space c)"
proof -
  assume a: "\<exists>c\<in>set s. \<not> js_space c"
  then have "filter (\<lambda>c. \<not> js_space c) (trim s) \<noteq> []"
    by (simp add: filter_trim filter_empty_conv)
  then show ?thesis
    by (auto simp: filter_empty_conv)
qed


lemma split_sentences_from_keep:
  "\<not> (sentence_end c \<and> cs \<noteq> [] \<and> js_space (hd cs)) \<Longrightarrow>
   split_sentences_from acc (c # cs) = split_sentences_from (c # acc) cs"
  by (subst split_sentences_from.simps) (rule if_not_P)

lemma has_text_append: "(\<exists>c\<in>set (a @ b). \<not> js_space c) \<longleftrightarrow> (\<exists>c\<in>set a. \<not> js_space c) \<or> (\<exists>c\<in>set b. \<not> js_space c)"
  by (simp add: bex_Un)

lemma split_sentences_from_not_Nil: "split_sentences_from acc s \<noteq> []"
  by (induction acc s rule: split_sentences_from.induct) auto

lemma hd_split_sentences_from:
  "s \<noteq> [] \<Longrightarrow> \<exists>t. hd (split_sentences_from acc s) = rev acc @ hd s # t"
proof (induction acc s rule: split_sentences_from.induct)
  case (1 acc)
  then show ?case by simp
next
  case (2 acc c cs)
  show ?case
  proof (cases "sentence_end c \<and> cs \<noteq> [] \<and> js_space (hd cs)")
    case True
    then show ?thesis by simp
  next
    case False
    show ?thesis
    proof (cases cs)
      case Nil
      with False show ?thesis by simp
    next
      case (Cons x xs)
      with 2(2) [OF False] obtain t where "hd (split_sentences_from (c # acc) cs) = rev (c # acc) @ hd cs # t"
        by auto
      with False show ?thesis by simp
    qed
  qed
qed

lemma later_sentences_start:
  "x \<in> set (tl (split_sentences_from acc s)) \<Longrightarrow> x = [] \<or> \<not> js_space (hd x)"
proof (induction acc s arbitrary: x rule: split_sentences_from.induct)
  case (1 acc)
  then show ?case by simp
next
  case (2 acc c cs)
  show ?case
  proof (cases "sentence_end c \<and> cs \<noteq> [] \<and> js_space (hd cs)")
    case True
    let ?r = "dropWhile js_space cs"
    from True 2(3) have x: "x \<in> set (split_sentences_from [] ?r)" by simp
    have ne: "split_sentences_from [] ?r \<noteq> []" by (rule split_sentences_from_not_Nil)
    from x ne have "x = hd (split_sentences_from [] ?r) \<or> x \<in> set (tl (split_sentences_from [] ?r))"
      by (cases "split_sentences_from [] ?r") auto
    then show ?thesis
    proof
      assume h: "x = hd (split_sentences_from [] ?r)"
      show ?thesis
      proof (cases "?r = []")
        case True
        with h show ?thesis by simp
      next
        case False
        from hd_split_sentences_from [OF False, of "[]"] h obtain t where "x = hd ?r # t" by auto
        moreover from False have "\<not> js_space (hd ?r)" by (rule hd_dropWhile)
        ultimately show ?thesis by simp
      qed
    next
      assume "x \<in> set (tl (split_sentences_from [] ?r))"
      with 2(1) [OF True] show ?thesis by blast
    qed
  next
    case False
    with 2(3) have "x \<in> set (tl (split_sentences_from (c # acc) cs))" by simp
    with 2(2) [OF False] show ?thesis by blast
  qed
qed

lemma first_sentence_has_text:
  "length (split_sentences_from acc s) \<ge> 2 \<Longrightarrow> \<exists>c\<in>set (hd (split_sentences_from acc s)). \<not> js_space c"
proof (induction acc s rule: split_sentences_from.induct)
  case (1 acc)
  then show ?case by simp
next
  case (2 acc c cs)
  show ?case
  proof (cases "sentence_end c \<and> cs \<noteq> [] \<and> js_space (hd cs)")
    case True
    then have "\<not> js_space c" by (simp add: sentence_end_not_space)
    with True show ?thesis by auto
  next
    case False
    then have eq: "split_sentences_from acc (c # cs) = split_sentences_from (c # acc) cs"
      by (rule split_sentences_from_keep)
    from 2(3) have "length (split_sentences_from (c # acc) cs) \<ge> 2"
      by (simp only: eq)
    from 2(2) [OF False this] show ?thesis
      by (simp only: eq)
  qed
qed

lemma chunk_loop_close:
  "length cur + length s > mx \<and> cur \<noteq> [] \<Longrightarrow>
   chunk_loop mx (s # ss) chunks cur = chunk_loop mx ss (chunks @ [trim cur]) s"
  by (subst chunk_loop.simps) (rule if_P)

lemma chunk_loop_extend:
  "\<not> (length cur + length s > mx \<and> cur \<noteq> []) \<Longrightarrow>
   chunk_loop mx (s # ss) chunks cur
     = chunk_loop mx ss chunks (cur @ (if cur \<noteq> [] then js '' '' else []) @ s)"
  by (subst chunk_loop.simps) (rule if_not_P)

lemma chunk_loop_has_text:
  "\<forall>s\<in>set ss. s = [] \<or> has_text s \<Longrightarrow> cur = [] \<or> has_text cur \<Longrightarrow>
   \<forall>c\<in>set chunks. c \<noteq> [] \<and> has_text c \<Longrightarrow>
   \<forall>c\<in>set (fst (chunk_loop mx ss chunks cur)). c \<noteq> [] \<and> has_text c"
proof (induction ss arbitrary: chunks cur)
  case Nil
  then show ?case by simp
next
  case (Cons s ss)
  show ?case
  proof (cases "length cur + length s > mx \<and> cur \<noteq> []")
    case True
    with Cons.prems(2) have "has_text cur" by simp
    then have "trim cur \<noteq> [] \<and> has_text (trim cur)"
      unfolding has_text_def by (rule trim_has_text)
    with Cons.prems(3) have c: "\<forall>c\<in>set (chunks @ [trim cur]). c \<noteq> [] \<and> has_text c" by simp
    from Cons.prems(1) have a: "\<forall>s\<in>set ss. s = [] \<or> has_text s" and b: "s = [] \<or> has_text s" by simp_all
    from Cons.IH [OF a b c] show ?thesis
      by (simp only: chunk_loop_close [OF True])
  next
    case False
    from Cons.prems(1) have a: "\<forall>s\<in>set ss. s = [] \<or> has_text s" and s: "s = [] \<or> has_text s" by simp_all
    let ?cur = "cur @ (if cur \<noteq> [] then js '' '' else []) @ s"
    have b: "?cur = [] \<or> has_text ?cur"
    proof (cases "cur = []")
      case True
      with s show ?thesis by simp
    next
      case False
      with Cons.prems(2) have "has_text cur" by simp
      then have "has_text ?cur"
        unfolding has_text_def by (simp only: has_text_append) simp
      then show ?thesis ..
    qed
    from Cons.IH [OF a b Cons.prems(3)] show ?thesis
      by (simp only: chunk_loop_extend [OF False])
  qed
qed

lemma chunkText_has_text:
  "c \<in> set (chunkText txt mx) \<Longrightarrow> c \<noteq> [] \<and> has_text c"
proof -
  assume c: "c \<in> set (chunkText txt mx)"
  obtain s0 ss where ss: "split_sentences txt = s0 # ss"
    using split_sentences_from_not_Nil [of "[]" "txt"]
    by (cases "split_sentences txt") (auto simp: split_sentences_def)
  obtain chunks cur where r: "chunk_loop mx (split_sentences txt) [] [] = (chunks, cur)"
    by (cases "chunk_loop mx (split_sentences txt) [] []")
  have first: "chunk_loop mx (s0 # ss) [] [] = chunk_loop mx ss [] s0" by simp
  have "\<forall>c\<in>set chunks. c \<noteq> [] \<and> has_text c"
  proof (cases ss)
    case Nil
    with r ss first show ?thesis by simp
  next
    case (Cons s1 ss')
    with ss have len: "length (split_sentences_from [] txt) \<ge> 2"
      by (simp add: split_sentences_def)
    from first_sentence_has_text [OF len] ss have h0: "s0 = [] \<or> has_text s0"
      by (simp add: split_sentences_def has_text_def)
    have "\<forall>s\<in>set ss. s = [] \<or> has_text s"
    proof
      fix s assume "s \<in> set ss"
      with ss have "s \<in> set (tl (split_sentences_from [] txt))"
        by (simp add: split_sentences_def)
      from later_sentences_start [OF this] show "s = [] \<or> has_text s"
        by (cases s) (auto simp: has_text_def)
    qed
    from chunk_loop_has_text [OF this h0, of "[]" mx] r ss first show ?thesis by simp
  qed
  moreover have "trim cur \<noteq> [] \<Longrightarrow> has_text (trim cur)"
    using trim_has_text [of cur] by (auto simp: has_text_def trim_empty_iff)
  ultimately show ?thesis
    using c r by (auto simp: chunkText_def split: if_splits)
qed

(* C3 amended *)




subsection \<open>The contents of the chunk drafts\<close>

lemma push_section_chunk_content:
  "foldl (push_section_chunk d sec) (acc, n) cs = (acc', n') \<Longrightarrow>
     map content acc' = map content acc @ cs"
proof (induction cs arbitrary: acc n)
  case Nil
  then show ?case by simp
next
  case (Cons c cs)
  from Cons.prems
  have "foldl (push_section_chunk d sec)
          (acc @ [\<lparr>document_id = d, chunk_index = n, content = c, c_section = s_section sec,
                    c_subsection = s_subsection sec, page_number = s_page sec\<rparr>], Suc n) cs = (acc', n')"
    by (simp add: push_section_chunk_simp)
  from Cons.IH [OF this] show ?case by simp
qed

lemma push_fallback_chunk_content:
  "foldl (push_fallback_chunk d) (acc, n, p) cs = (acc', n', p') \<Longrightarrow>
     map content acc' = map content acc @ cs"
proof (induction cs arbitrary: acc n p)
  case Nil
  then show ?case by simp
next
  case (Cons c cs)
  from Cons.prems
  have "foldl (push_fallback_chunk d)
          (acc @ [\<lparr>document_id = d, chunk_index = n, content = c, c_section = js ''1'',
                    c_subsection = [], page_number = p\<rparr>], Suc n, Suc p) cs = (acc', n', p')"
    by (simp add: push_fallback_chunk_simp)
  from Cons.IH [OF this] show ?case by simp
qed

lemma section_chunks_content:
  "foldl (section_chunks d) (acc, n) secs = (acc', n') \<Longrightarrow>
   set (map content acc) \<subseteq> {c. c \<noteq> [] \<and> has_text c} \<Longrightarrow>
   set (map content acc') \<subseteq> {c. c \<noteq> [] \<and> has_text c}"
proof (induction secs arbitrary: acc n)
  case Nil
  then show ?case by simp
next
  case (Cons sec secs)
  obtain acc1 n1 where step: "section_chunks d (acc, n) sec = (acc1, n1)"
    by (cases "section_chunks d (acc, n) sec")
  then have "map content acc1 = map content acc @ chunkText (s_content sec) defaultMaxChunkSize"
    unfolding section_chunks_def by (rule push_section_chunk_content)
  with Cons.prems(2) have a: "set (map content acc1) \<subseteq> {c. c \<noteq> [] \<and> has_text c}"
    using chunkText_has_text [of _ "s_content sec" defaultMaxChunkSize] by auto
  from Cons.prems(1) step have b: "foldl (section_chunks d) (acc1, n1) secs = (acc', n')"
    by simp
  from b a show ?case by (rule Cons.IH)
qed

lemma build_chunks_content:
  "set (map content (build_chunks d secs txt)) \<subseteq> {c. c \<noteq> [] \<and> has_text c}"
proof (cases "length secs > 0")
  case True
  obtain acc' n' where r: "foldl (section_chunks d) ([], 0) secs = (acc', n')"
    by (cases "foldl (section_chunks d) ([], 0) secs")
  from section_chunks_content [OF r] have "set (map content acc') \<subseteq> {c. c \<noteq> [] \<and> has_text c}"
    by simp
  with True r show ?thesis by (simp add: build_chunks_def)
next
  case False
  obtain acc' n' p' where r:
    "foldl (push_fallback_chunk d) ([], 0, 1) (chunkText txt defaultMaxChunkSize) = (acc', n', p')"
    by (cases "foldl (push_fallback_chunk d) ([], 0, 1) (chunkText txt defaultMaxChunkSize)") auto
  from push_fallback_chunk_content [OF r]
  have "map content acc' = chunkText txt defaultMaxChunkSize" by simp
  then have "set (map content acc') \<subseteq> {c. c \<noteq> [] \<and> has_text c}"
    using chunkText_has_text [of _ "txt" defaultMaxChunkSize] by auto
  with False r show ?thesis by (simp add: build_chunks_def)
qed

subsection \<open>The claims on segmentation\<close>

text \<open>
  C10. Every string \<open>chunkText\<close> returns is non-empty and holds a character that is not
  white space, whatever the text (so in particular for a text that is non-empty after
  trimming); hence every row built from the chunk drafts of a document has such a
  content, for every list of sections and every fallback text.
\<close>

theorem chunks_have_text:
  "(\<forall>c\<in>set (chunkText txt mx). c \<noteq> [] \<and> has_text c) \<and>
   (\<forall>r\<in>set (map to_row (build_chunks d secs txt')). row_content r \<noteq> [] \<and> has_text (row_content r))"
proof
  show "\<forall>c\<in>set (chunkText txt mx). c \<noteq> [] \<and> has_text c"
    using chunkText_has_text [of _ "txt" mx] by blast
next
  have "row_content (to_row x) = content x" for x
    by (simp add: to_row_def)
  with build_chunks_content [of d secs txt']
  show "\<forall>r\<in>set (map to_row (build_chunks d secs txt')). row_content r \<noteq> [] \<and> has_text (row_content r)"
    by auto
qed

theorem chunks_have_text_witness:
  "js ''Hi.'' \<in> set (chunkText (js ''Hi. Yo.'') 5) \<and> js ''Hi.'' \<noteq> [] \<and> has_text (js ''Hi.'') \<and>
   map row_content (map to_row (build_chunks (js ''d'')
      [\<lparr>s_section = js ''4'', s_subsection = js ''4.1'', s_content = js ''4.1 Scope'', s_page = 1\<rparr>] []))
     = [js ''4.1 Scope''] \<and>
   has_text (js ''4.1 Scope'')"
proof -
  let ?secs = "[\<lparr>s_section = js ''4'', s_subsection = js ''4.1'', s_content = js ''4.1 Scope'', s_page = 1\<rparr>]"
  have m: "js ''Hi.'' \<in> set (chunkText (js ''Hi. Yo.'') 5)"
    by code_simp
  have n: "map row_content (map to_row (build_chunks (js ''d'') ?secs [])) = [js ''4.1 Scope'']"
    by code_simp
  note t = chunks_have_text [of "js ''Hi. Yo.''" 5 "js ''d''" ?secs "[]"]
  from t m have a: "js ''Hi.'' \<noteq> [] \<and> has_text (js ''Hi.'')" by blast
  from t have "\<forall>c\<in>set (map row_content (map to_row (build_chunks (js ''d'') ?secs []))). has_text c"
    by simp
  then have b: "has_text (js ''4.1 Scope'')"
    unfolding n by simp
  from m n a b show ?thesis by blast
qed






section \<open>The chunk store\<close>








lemma filter_deleted_other:
  "d' \<noteq> d \<Longrightarrow> filter (\<lambda>r. row_document_id r = d') (filter (\<lambda>r. row_document_id r \<noteq> d) rows)
     = filter (\<lambda>r. row_document_id r = d') rows"
  by (induction rows) simp_all


lemma push_section_chunk_document_id:
  "foldl (push_section_chunk d sec) (acc, n) cs = (acc', n') \<Longrightarrow>
   \<forall>c\<in>set acc. document_id c = d \<Longrightarrow> \<forall>c\<in>set acc'. document_id c = d"
proof (induction cs arbitrary: acc n)
  case Nil
  then show ?case by simp
next
  case (Cons c cs)
  from Cons.prems(1)
  have "foldl (push_section_chunk d sec)
          (acc @ [\<lparr>document_id = d, chunk_index = n, content = c, c_section = s_section sec,
                    c_subsection = s_subsection sec, page_number = s_page sec\<rparr>], Suc n) cs = (acc', n')"
    by (simp add: push_section_chunk_simp)
  moreover from Cons.prems(2)
  have "\<forall>x\<in>set (acc @ [\<lparr>document_id = d, chunk_index = n, content = c, c_section = s_section sec,
                    c_subsection = s_subsection sec, page_number = s_page sec\<rparr>]). document_id x = d"
    by simp
  ultimately show ?case by (rule Cons.IH)
qed

lemma push_fallback_chunk_document_id:
  "foldl (push_fallback_chunk d) (acc, n, p) cs = (acc', n', p') \<Longrightarrow>
   \<forall>c\<in>set acc. document_id c = d \<Longrightarrow> \<forall>c\<in>set acc'. document_id c = d"
proof (induction cs arbitrary: acc n p)
  case Nil
  then show ?case by simp
next
  case (Cons c cs)
  from Cons.prems(1)
  have "foldl (push_fallback_chunk d)
          (acc @ [\<lparr>document_id = d, chunk_index = n, content = c, c_section = js ''1'',
                    c_subsection = [], page_number = p\<rparr>], Suc n, Suc p) cs = (acc', n', p')"
    by (simp add: push_fallback_chunk_simp)
  moreover from Cons.prems(2)
  have "\<forall>x\<in>set (acc @ [\<lparr>document_id = d, chunk_index = n, content = c, c_section = js ''1'',
                    c_subsection = [], page_number = p\<rparr>]). document_id x = d"
    by simp
  ultimately show ?case by (rule Cons.IH)
qed

lemma section_chunks_document_id:
  "foldl (section_chunks d) (acc, n) secs = (acc', n') \<Longrightarrow>
   \<forall>c\<in>set acc. document_id c = d \<Longrightarrow> \<forall>c\<in>set acc'. document_id c = d"
proof (induction secs arbitrary: acc n)
  case Nil
  then show ?case by simp
next
  case (Cons sec secs)
  obtain acc1 n1 where step: "section_chunks d (acc, n) sec = (acc1, n1)"
    by (cases "section_chunks d (acc, n) sec")
  then have "foldl (push_section_chunk d sec) (acc, n) (chunkText (s_content sec) defaultMaxChunkSize) = (acc1, n1)"
    by (simp only: section_chunks_def)
  from push_section_chunk_document_id [OF this Cons.prems(2)]
  have a: "\<forall>c\<in>set acc1. document_id c = d" .
  from Cons.prems(1) step have b: "foldl (section_chunks d) (acc1, n1) secs = (acc', n')"
    by simp
  from b a show ?case by (rule Cons.IH)
qed

text \<open>The drafts \<open>serve\<close> hands to the store all carry its \<open>documentId\<close>.\<close>

lemma build_chunks_document_id: "\<forall>c\<in>set (build_chunks d secs t). document_id c = d"
proof (cases "length secs > 0")
  case True
  obtain acc' n' where r: "foldl (section_chunks d) ([], 0) secs = (acc', n')"
    by (cases "foldl (section_chunks d) ([], 0) secs")
  from section_chunks_document_id [OF r] have "\<forall>c\<in>set acc'. document_id c = d" by simp
  with True r show ?thesis by (simp add: build_chunks_def)
next
  case False
  obtain acc' n' p' where r:
    "foldl (push_fallback_chunk d) ([], 0, 1) (chunkText t defaultMaxChunkSize) = (acc', n', p')"
    by (cases "foldl (push_fallback_chunk d) ([], 0, 1) (chunkText t defaultMaxChunkSize)") auto
  from push_fallback_chunk_document_id [OF r] have "\<forall>c\<in>set acc'. document_id c = d" by simp
  with False r show ?thesis by (simp add: build_chunks_def)
qed




section \<open>The length threshold\<close>

text \<open>
  C7, as the code has it. When the extracted text (the raw text when the PDF extraction
  gave fewer than 100 characters) is shorter than 50 characters, the handler answers 500
  with the extraction message and leaves both tables as they were: no chunk is created
  or deleted and no column of the document is written.
\<close>

theorem short_text_rejected:
  "download env (filePath r) = Inr fileData \<Longrightarrow> length (extracted_text fileData) < 50 \<Longrightarrow>
   process_document env (Post (Some r)) db =
     (\<lparr>status = 500, body = ProcessError extraction_error\<rparr>, db)"
  by (simp add: process_document_def)

theorem short_text_rejected_witness:
  "download short_env (filePath short_request) = Inr short_file \<and>
   length (extracted_text short_file) < 50 \<and>
   process_document short_env (Post (Some short_request)) store0 =
     (\<lparr>status = 500, body = ProcessError extraction_error\<rparr>, store0)"
proof -
  have a: "download short_env (filePath short_request) = Inr short_file"
    by (simp add: short_env_def)
  have b: "length (extracted_text short_file) < 50"
    by (simp add: extracted_text_def short_file_def js_def)
  from a b short_text_rejected [OF a b, of store0] show ?thesis by simp
qed

text \<open>
  The claim C7 as stated fails in its last part: after the failed ingestion the store is
  unchanged and the document still reads as unprocessed; nothing marks it failed.
\<close>

theorem status_failed_counterexample:
  "snd (process_document short_env (Post (Some short_request)) store0) = store0 \<and>
   map document_status (iso_documents (snd (process_document short_env (Post (Some short_request)) store0)))
     = [Unprocessed] \<and>
   Unprocessed \<noteq> Failed"
  by code_simp

section \<open>Retrieval\<close>






section \<open>Context, sources and prompt\<close>

lemma forEach_chunk_result:
  "forEach_chunk i cs (ctx, srcs) =
     (ctx @ concat (map context_entry (zip [i ..< i + length cs] cs)),
      srcs @ map to_source cs)"
proof (induction cs arbitrary: i ctx srcs)
  case Nil
  then show ?case by simp
next
  case (Cons c cs)
  have "[i ..< i + length (c # cs)] = i # [Suc i ..< Suc i + length cs]"
    by (simp add: upt_conv_Cons del: upt_Suc)
  then show ?case
    by (simp add: Cons.IH context_entry_def del: upt_Suc)
qed

text \<open>
  C4, as the code has it. There is no maximum context length: after a header line the
  context holds one entry for every retrieved chunk, in rank order, each made of the
  provenance tag (source number, document, section, subsection), the whole content and an
  empty line; nothing is dropped or cut. The sources list has one entry for every
  retrieved chunk, in the same order. Without chunks both are empty.
\<close>

theorem build_context_all_chunks:
  "build_context cs =
     (if cs = [] then ([], [])
      else (context_header @ concat (map context_entry (zip [0 ..< length cs] cs)),
            map to_source cs))"
  by (simp add: build_context_def forEach_chunk_result)

text \<open>
  The claim C4 as stated fails: no budget bounds the length of the context.
\<close>

theorem build_context_budget_counterexample:
  "\<not> (\<exists>budget. \<forall>cs. length (fst (build_context cs)) \<le> budget)"
proof
  assume "\<exists>budget. \<forall>cs. length (fst (build_context cs)) \<le> budget"
  then obtain budget where b: "\<forall>cs. length (fst (build_context cs)) \<le> budget" ..
  let ?c = "\<lparr>ch_content = replicate (Suc budget) 0x61, ch_section = None, ch_subsection = None,
             ch_page_number = None, ch_chunk_index = 0, ch_document_id = [],
             ch_iso_documents = None\<rparr>"
  have "length (fst (build_context [?c])) > budget"
    by (simp add: build_context_def context_header_def)
  with b show False by (simp add: not_le [symmetric])
qed

text \<open>The prompt of the claim is the one the handler hands to the gateway.\<close>

lemma chat_sends_systemPrompt:
  "js_or (req_question r) [] \<noteq> [] \<Longrightarrow> js_or (LOVABLE_API_KEY env) [] \<noteq> [] \<Longrightarrow>
   chat env (ChatPost (Some r)) db messages =
     chat_reply r (js_or (req_question r) [])
       (snd (build_context (relevantChunks env db (js_or (req_question r) []))))
       (gateway env
          (systemPrompt (fst (build_context (relevantChunks env db (js_or (req_question r) [])))))
          (js_or (req_question r) []))
       messages"
  by (simp add: chat_def Let_def case_prod_beta)



end
